theory Spec2Isabelle
  imports Main "HOL-Library.Sublist" "HOL-Library.Extended_Nat"
begin

section \<open>The highlight-span locator of the PDF viewer\<close>

text \<open>
  The development embeds the matching part of the PDF viewer component in
  \<^verbatim>\<open>app/compare/page.tsx\<close> (functions \<^verbatim>\<open>extractWords\<close>, \<^verbatim>\<open>wordsMatch\<close>,
  \<^verbatim>\<open>findWordInSpans\<close> and \<^verbatim>\<open>applyHighlights\<close>) and proves the properties the
  specification states about it.
\<close>

subsection \<open>Strings\<close>

text \<open>
  A JavaScript string is a sequence of UTF-16 code units. The model takes \<^typ>\<open>string\<close>,
  one \<^typ>\<open>char\<close> per code unit, and so covers the strings whose code units are below 256
  (ASCII and Latin-1). On that range \<^verbatim>\<open>toLowerCase\<close> maps \<^verbatim>\<open>A-Z\<close> and the
  accented capitals U+00C0..U+00DE (the multiplication sign U+00D7 apart) to the code unit
  32 above, and leaves every other code unit alone.
\<close>

definition toLowerCaseUnit :: "char \<Rightarrow> char" where
  "toLowerCaseUnit c =
     (let n = (of_char c :: nat)
      in if (65 \<le> n \<and> n \<le> 90) \<or> (192 \<le> n \<and> n \<le> 222 \<and> n \<noteq> 215)
         then char_of (n + 32) else c)"

definition toLowerCase :: "string \<Rightarrow> string" where
  "toLowerCase s = map toLowerCaseUnit s"

text \<open>The regular expression class \<^verbatim>\<open>\w\<close> (no unicode flag): \<^verbatim>\<open>[A-Za-z0-9_]\<close>.\<close>

definition isWordChar :: "char \<Rightarrow> bool" where
  "isWordChar c =
     (let n = (of_char c :: nat)
      in (48 \<le> n \<and> n \<le> 57) \<or> (65 \<le> n \<and> n \<le> 90) \<or> n = 95 \<or> (97 \<le> n \<and> n \<le> 122))"

text \<open>
  The class \<^verbatim>\<open>\s\<close> below 256: tab, line feed, vertical tab, form feed, carriage
  return, space and the no-break space U+00A0.
\<close>

definition isWhiteSpace :: "char \<Rightarrow> bool" where
  "isWhiteSpace c = ((of_char c :: nat) \<in> {9, 10, 11, 12, 13, 32, 160})"

text \<open>\<^verbatim>\<open>.replace(/[^\w\s]/g, ' ')\<close>\<close>

definition replacePunctuation :: "string \<Rightarrow> string" where
  "replacePunctuation s = map (\<lambda>c. if isWordChar c \<or> isWhiteSpace c then c else CHR '' '') s"

text \<open>
  \<^verbatim>\<open>.split(/\s+/)\<close>: the pieces between the maximal runs of white space. A run at the
  start or at the end of the string leaves an empty piece there, and the empty string
  splits into one empty piece.
\<close>

function splitWhiteSpace :: "string \<Rightarrow> string list" where
  "splitWhiteSpace [] = [[]]"
| "splitWhiteSpace (c # cs) =
     (if isWhiteSpace c then [] # splitWhiteSpace (dropWhile isWhiteSpace cs)
      else (case splitWhiteSpace cs of
              [] \<Rightarrow> [[c]]
            | t # ts \<Rightarrow> (c # t) # ts))"
  by pat_completeness auto
termination
  by (relation "measure length") (auto simp: length_dropWhile_le less_Suc_eq_le)

definition extractWords :: "string \<Rightarrow> string list" where
  "extractWords txt =
     filter (\<lambda>w. length w > 2) (splitWhiteSpace (replacePunctuation (toLowerCase txt)))"

text \<open>\<^verbatim>\<open>s.includes(t)\<close>: \<open>t\<close> occurs in \<open>s\<close> as a contiguous piece.\<close>

fun str_includes :: "string \<Rightarrow> string \<Rightarrow> bool" where
  "str_includes [] t = (t = [])"
| "str_includes (c # cs) t = (prefix t (c # cs) \<or> str_includes cs t)"

definition wordsMatch :: "string \<Rightarrow> string \<Rightarrow> bool" where
  "wordsMatch word1 word2 = (str_includes word1 word2 \<or> str_includes word2 word1)"

subsection \<open>Data\<close>

text \<open>The interface \<^verbatim>\<open>HighlightData\<close>; an absent \<^verbatim>\<open>title\<close> is \<open>None\<close>.\<close>

record HighlightData =
  hl_page :: nat
  hl_text :: string
  hl_summary :: string
  hl_id :: string
  hl_title :: "string option"

text \<open>
  The handlers the pass installs are closures over the highlight: the click handler selects
  the highlight and reports its id and summary, the mouse-enter handler hovers it and shows
  a tooltip (the title, or the summary when there is no title), the mouse-leave handler
  resets both.
\<close>

datatype handler =
    OnClick string string
  | OnMouseEnter string string
  | OnMouseLeave

text \<open>
  What the pass reads and writes of a text-layer \<^verbatim>\<open>span\<close> element: its text, the style
  properties, the \<^verbatim>\<open>title\<close> attribute, the three \<^verbatim>\<open>dataset\<close> entries (\<open>None\<close> when
  the attribute is absent) and the three event handlers (\<open>None\<close> for \<^verbatim>\<open>null\<close>).
\<close>

record element =
  textContent :: string
  backgroundColor :: string
  borderRadius :: string
  cursor :: string
  transition :: string
  transform :: string
  boxShadow :: string
  title :: string
  highlightId :: "string option"
  highlightSummary :: "string option"
  highlightTitle :: "string option"
  onclick :: "handler option"
  onmouseenter :: "handler option"
  onmouseleave :: "handler option"

text \<open>An entry of \<^verbatim>\<open>allSpans\<close>.\<close>

record spanInfo =
  span :: element
  pageNum :: nat
  localIndex :: nat

text \<open>
  An entry of \<^verbatim>\<open>spanData\<close>. Its third field in the source is the element of the entry
  of \<^verbatim>\<open>allSpans\<close> at the same position; the model reads it there.
\<close>

record spanData =
  index :: nat
  words :: "string list"

record candidate =
  cstart :: nat
  cend :: nat

text \<open>The component state the pass reads: the selected and the hovered highlight.\<close>

record viewer =
  selectedHighlightId :: "string option"
  externalSelectedId :: "string option"
  hoveredHighlightId :: "string option"

text \<open>
  Dereferencing \<^verbatim>\<open>undefined\<close> throws a \<^verbatim>\<open>TypeError\<close>; it is the only exception the
  pass could raise.
\<close>

datatype error = TypeError

text \<open>\<^verbatim>\<open>xs[i]\<close>: \<^verbatim>\<open>undefined\<close> (here \<open>None\<close>) out of range.\<close>

definition js_index :: "'a list \<Rightarrow> nat \<Rightarrow> 'a option" where
  "js_index xs i = (if i < length xs then Some (xs ! i) else None)"

text \<open>
  The values of \<^verbatim>\<open>new Set(xs)\<close> in iteration order: each value once, at the place of
  its first occurrence.
\<close>

definition setValues :: "'a list \<Rightarrow> 'a list" where
  "setValues xs = rev (remdups (rev xs))"

definition HIGHLIGHT_COLOR :: string where
  "HIGHLIGHT_COLOR = ''rgba(249, 115, 22, 0.2)''"

definition HIGHLIGHT_COLOR_HOVER :: string where
  "HIGHLIGHT_COLOR_HOVER = ''rgba(249, 115, 22, 0.35)''"

definition HIGHLIGHT_COLOR_SELECTED :: string where
  "HIGHLIGHT_COLOR_SELECTED = ''rgba(249, 115, 22, 0.5)''"

subsection \<open>Collecting the fragments\<close>

text \<open>The clearing of one span (lines 717 to 728).\<close>

definition clearHighlight :: "element \<Rightarrow> element" where
  "clearHighlight el =
     el\<lparr>backgroundColor := '''', borderRadius := '''', cursor := '''', title := '''',
        highlightId := None, highlightSummary := None, highlightTitle := None,
        onclick := None, onmouseenter := None, onmouseleave := None\<rparr>"

text \<open>
  The first loop of \<^verbatim>\<open>applyHighlights\<close>. The argument lists, in the iteration order of
  \<^verbatim>\<open>renderedPages\<close>, the rendered pages that have a page element and a text layer, each
  with the spans of its text layer; the source skips the other pages, which have no spans.
  Every span is cleared and pushed with its page number and its index on the page.
\<close>

definition collectSpans :: "(nat \<times> element list) list \<Rightarrow> spanInfo list" where
  "collectSpans pages =
     concat (map (\<lambda>(pn, textSpans).
                    map (\<lambda>(idx, el). \<lparr>span = clearHighlight el, pageNum = pn, localIndex = idx\<rparr>)
                        (List.enumerate 0 textSpans))
                 pages)"

definition buildSpanData :: "spanInfo list \<Rightarrow> spanData list" where
  "buildSpanData allSpans =
     map (\<lambda>(idx, si). \<lparr>index = idx, words = extractWords (textContent (span si))\<rparr>)
         (List.enumerate 0 allSpans)"

subsection \<open>Matching one highlight\<close>

text \<open>
  \<^verbatim>\<open>findWordInSpans\<close>; the defaults of its last two parameters are \<open>-1\<close> and
  \<^verbatim>\<open>Infinity\<close>.
\<close>

definition findWordInSpans :: "string \<Rightarrow> spanData list \<Rightarrow> int \<Rightarrow> enat \<Rightarrow> nat list" where
  "findWordInSpans targetWord sd afterIndex beforeIndex =
     map index
       (filter (\<lambda>sp. \<not> (int (index sp) \<le> afterIndex \<or> beforeIndex \<le> enat (index sp))
                     \<and> list_ex (\<lambda>w. wordsMatch w targetWord) (words sp))
               sd)"

text \<open>The nested loops of lines 776 to 782.\<close>

definition generateCandidates :: "nat list \<Rightarrow> nat list \<Rightarrow> candidate list" where
  "generateCandidates startPositions endPositions =
     concat (map (\<lambda>s. map (\<lambda>e. \<lparr>cstart = s, cend = e\<rparr>)
                           (filter (\<lambda>e. e > s \<and> int e - int s \<le> 500) endPositions))
                 startPositions)"

text \<open>
  The key of the comparator of line 784. \<^verbatim>\<open>Array.prototype.sort\<close> is stable
  (ECMAScript 2019), and the stable sorting of a list by a key is unique, so the sort is
  \<^const>\<open>sort_key\<close>.
\<close>

definition spanLength :: "candidate \<Rightarrow> int" where
  "spanLength c = int (cend c) - int (cstart c)"

definition commonWords :: "string list" where
  "commonWords = [''the'', ''and'', ''for'', ''with'', ''this'', ''that'', ''are'', ''was'',
                  ''will'', ''from'', ''have'', ''has'']"

definition uniqueWords :: "string list \<Rightarrow> string list" where
  "uniqueWords highlightWords = filter (\<lambda>w. w \<notin> set commonWords) (setValues highlightWords)"

text \<open>The words of the spans \<open>cstart..cend\<close> (lines 802 to 805).\<close>

definition rangeWords :: "spanData list \<Rightarrow> candidate \<Rightarrow> string list" where
  "rangeWords sd cand =
     setValues (concat (map (\<lambda>i. case js_index sd i of None \<Rightarrow> [] | Some sp \<Rightarrow> words sp)
                            [cstart cand ..< Suc (cend cand)]))"

text \<open>The predicate of the filter of lines 800 to 819.\<close>

definition containsAllWords :: "spanData list \<Rightarrow> string list \<Rightarrow> candidate \<Rightarrow> bool" where
  "containsAllWords sd uw cand =
     list_all (\<lambda>word. list_ex (\<lambda>rw. wordsMatch word rw) (rangeWords sd cand)) uw"

text \<open>
  The body of the callback of \<^verbatim>\<open>highlightData.forEach\<close> up to the choice of
  \<^verbatim>\<open>bestCandidate\<close>: \<open>Inr None\<close> for each early \<^verbatim>\<open>return\<close>, \<open>Inr (Some best)\<close> for the
  range that is then tagged, \<open>Inl TypeError\<close> where the source would use an
  \<^verbatim>\<open>undefined\<close> word or candidate.
\<close>

definition matchHighlight :: "spanData list \<Rightarrow> HighlightData \<Rightarrow> error + candidate option" where
  "matchHighlight sd highlight =
     (let highlightWords = extractWords (hl_text highlight)
      in if length highlightWords < 2 then Inr None
         else
           (case (js_index highlightWords 0, js_index highlightWords (length highlightWords - 1)) of
              (Some firstWord, Some lastWord) \<Rightarrow>
                (let startPositions = findWordInSpans firstWord sd (- 1) \<infinity>;
                     endPositions = findWordInSpans lastWord sd (- 1) \<infinity>
                 in if startPositions = [] \<or> endPositions = [] then Inr None
                    else
                      (let candidates = sort_key spanLength (generateCandidates startPositions endPositions)
                       in if candidates = [] then Inr None
                          else
                            (let candidates' =
                                   filter (containsAllWords sd (uniqueWords highlightWords)) candidates
                             in if candidates' = [] then Inr None
                                else (case js_index candidates' 0 of
                                        None \<Rightarrow> Inl TypeError
                                      | Some bestCandidate \<Rightarrow> Inr (Some bestCandidate)))))
            | _ \<Rightarrow> Inl TypeError))"

subsection \<open>Tagging\<close>

text \<open>The writes to one span of the matched range (lines 840 to 876).\<close>

definition tagSpan :: "viewer \<Rightarrow> HighlightData \<Rightarrow> element \<Rightarrow> element" where
  "tagSpan v highlight el =
     (let isSelected = (selectedHighlightId v = Some (hl_id highlight)
                        \<or> externalSelectedId v = Some (hl_id highlight));
          isHovered = (hoveredHighlightId v = Some (hl_id highlight));
          hasTitle = (case hl_title highlight of None \<Rightarrow> False | Some t \<Rightarrow> t \<noteq> '''')
      in el\<lparr>backgroundColor :=
               (if isSelected then HIGHLIGHT_COLOR_SELECTED
                else if isHovered then HIGHLIGHT_COLOR_HOVER else HIGHLIGHT_COLOR),
             borderRadius := ''2px'',
             cursor := ''pointer'',
             transition := ''all 0.2s ease'',
             transform := (if isHovered then ''scale(1.002)'' else ''scale(1)''),
             boxShadow :=
               (if isSelected then ''0 2px 8px rgba(249, 115, 22, 0.30)''
                else if isHovered then ''0 1px 4px rgba(249, 115, 22, 0.25)'' else ''none''),
             highlightId := Some (hl_id highlight),
             highlightSummary := Some (hl_summary highlight),
             highlightTitle := (if hasTitle then hl_title highlight else highlightTitle el),
             onmouseenter :=
               Some (OnMouseEnter (hl_id highlight)
                       (if hasTitle then the (hl_title highlight) else hl_summary highlight)),
             onmouseleave := Some OnMouseLeave,
             onclick := Some (OnClick (hl_id highlight) (hl_summary highlight))\<rparr>)"

text \<open>The loop of lines 837 to 878 over the spans of the matched range.\<close>

definition highlightRange ::
  "viewer \<Rightarrow> HighlightData \<Rightarrow> candidate \<Rightarrow> spanInfo list \<Rightarrow> spanInfo list" where
  "highlightRange v highlight best st =
     fold (\<lambda>i st'. case js_index st' i of
                      None \<Rightarrow> st'
                    | Some si \<Rightarrow> st'[i := si\<lparr>span := tagSpan v highlight (span si)\<rparr>])
          [cstart best ..< Suc (cend best)] st"

text \<open>
  \<^verbatim>\<open>highlightData.forEach\<close>: the highlights in order, on the spans as the earlier ones
  left them. An exception in one callback ends the pass.
\<close>

fun processHighlights ::
  "viewer \<Rightarrow> spanData list \<Rightarrow> HighlightData list \<Rightarrow> spanInfo list \<Rightarrow> error + spanInfo list" where
  "processHighlights v sd [] st = Inr st"
| "processHighlights v sd (highlight # rest) st =
     (case matchHighlight sd highlight of
        Inl e \<Rightarrow> Inl e
      | Inr None \<Rightarrow> processHighlights v sd rest st
      | Inr (Some best) \<Rightarrow> processHighlights v sd rest (highlightRange v highlight best st))"

text \<open>
  \<^verbatim>\<open>applyHighlights\<close>. The result is the state of every span of every rendered page
  after the pass, in the order of \<^verbatim>\<open>allSpans\<close>.
\<close>

definition applyHighlights ::
  "viewer \<Rightarrow> (nat \<times> element list) list \<Rightarrow> HighlightData list \<Rightarrow> error + spanInfo list" where
  "applyHighlights v pages highlightData =
     (let allSpans = collectSpans pages
      in if length allSpans = 0 then Inr allSpans
         else processHighlights v (buildSpanData allSpans) highlightData allSpans)"

text \<open>
  The effect of lines 911 to 916, the only caller of \<^verbatim>\<open>applyHighlights\<close>: it runs when
  the highlights or the rendered pages change, and returns without a pass when there is no
  highlight or no rendered page. Without a pass the spans stay as they are. (A rendered page
  without a text layer has no spans: if no rendered page has one, the pass returns at once
  and the result is the same empty list.)
\<close>

definition renderedSpans :: "(nat \<times> element list) list \<Rightarrow> spanInfo list" where
  "renderedSpans pages =
     concat (map (\<lambda>(pn, textSpans).
                    map (\<lambda>(idx, el). \<lparr>span = el, pageNum = pn, localIndex = idx\<rparr>)
                        (List.enumerate 0 textSpans))
                 pages)"

definition highlightEffect ::
  "viewer \<Rightarrow> (nat \<times> element list) list \<Rightarrow> HighlightData list \<Rightarrow> error + spanInfo list" where
  "highlightEffect v pages highlightData =
     (if length highlightData = 0 \<or> length pages = 0 then Inr (renderedSpans pages)
      else applyHighlights v pages highlightData)"

subsection \<open>Derived notions\<close>

text \<open>
  The candidates left after the filter of lines 800 to 819, in the order of the sorted list:
  the list whose first entry the source takes as \<^verbatim>\<open>bestCandidate\<close>. The argument is
  the word sequence of the highlight, whose first and last entries are the two anchors.
\<close>

definition survivingCandidates :: "spanData list \<Rightarrow> string list \<Rightarrow> candidate list" where
  "survivingCandidates sd ws =
     filter (containsAllWords sd (uniqueWords ws))
       (sort_key spanLength
          (generateCandidates (findWordInSpans (ws ! 0) sd (- 1) \<infinity>)
                              (findWordInSpans (ws ! (length ws - 1)) sd (- 1) \<infinity>)))"

text \<open>
  The order in which the nested loops of lines 776 to 782 produce the candidates: by start
  index, and for one start index by end index.
\<close>

definition enumeratedBefore :: "candidate \<Rightarrow> candidate \<Rightarrow> bool" where
  "enumeratedBefore a b \<longleftrightarrow> cstart a < cstart b \<or> (cstart a = cstart b \<and> cend a < cend b)"

subsection \<open>The wording of the specification\<close>

text \<open>
  The normalization as the specification words it, to compare \<^const>\<open>extractWords\<close> with:
  lower-case the text, replace every non-alphanumeric character with white space, split on
  runs of white space, discard the tokens shorter than 3 characters. Alphanumeric is read
  as the ASCII letters and digits.
\<close>

definition isAlphaNumeric :: "char \<Rightarrow> bool" where
  "isAlphaNumeric c =
     (let n = (of_char c :: nat)
      in (48 \<le> n \<and> n \<le> 57) \<or> (65 \<le> n \<and> n \<le> 90) \<or> (97 \<le> n \<and> n \<le> 122))"

definition specNormalize :: "string \<Rightarrow> string list" where
  "specNormalize txt =
     filter (\<lambda>w. \<not> length w < 3)
       (splitWhiteSpace (map (\<lambda>c. if isAlphaNumeric c then c else CHR '' '') (toLowerCase txt)))"

text \<open>
  The significant words of a text in the sense of the specification's glossary: its
  normalized tokens (of length 3 or more) that are not in the stop-word list. The source
  has no such function; it counts all normalized tokens in its guard and drops the stop
  words only in the coverage filter.
\<close>

definition significantWords :: "string \<Rightarrow> string list" where
  "significantWords txt = filter (\<lambda>w. w \<notin> set commonWords) (extractWords txt)"

subsection \<open>Example inputs\<close>

text \<open>A span as the text layer renders it.\<close>

definition textSpan :: "string \<Rightarrow> element" where
  "textSpan t =
     \<lparr>textContent = t, backgroundColor = '''', borderRadius = '''', cursor = '''',
      transition = '''', transform = '''', boxShadow = '''', title = '''',
      highlightId = None, highlightSummary = None, highlightTitle = None,
      onclick = None, onmouseenter = None, onmouseleave = None\<rparr>"

text \<open>The span data of a single page whose spans have the given texts.\<close>

definition fragments :: "string list \<Rightarrow> spanData list" where
  "fragments ts = buildSpanData (collectSpans [(1, map textSpan ts)])"

text \<open>A highlight request with the given text.\<close>

definition target :: "string \<Rightarrow> HighlightData" where
  "target t = \<lparr>hl_page = 1, hl_text = t, hl_summary = ''summary'', hl_id = ''h1'', hl_title = None\<rparr>"

text \<open>A viewer in which no highlight is selected or hovered.\<close>

definition idleViewer :: viewer where
  "idleViewer = \<lparr>selectedHighlightId = None, externalSelectedId = None, hoveredHighlightId = None\<rparr>"

text \<open>
  A span as an earlier pass left it: rendered with the given text and then tagged for
  another highlight.
\<close>

definition staleSpan :: "string \<Rightarrow> element" where
  "staleSpan t =
     tagSpan idleViewer
       \<lparr>hl_page = 1, hl_text = ''earlier text'', hl_summary = ''earlier summary'',
        hl_id = ''h0'', hl_title = None\<rparr>
       (textSpan t)"

text \<open>A viewer in which the highlight \<open>h0\<close> is selected and hovered, and that highlight.\<close>

definition selectingViewer :: viewer where
  "selectingViewer =
     \<lparr>selectedHighlightId = Some ''h0'', externalSelectedId = None, hoveredHighlightId = Some ''h0''\<rparr>"

definition earlierTarget :: HighlightData where
  "earlierTarget =
     \<lparr>hl_page = 1, hl_text = ''Data privacy'', hl_summary = ''earlier summary'',
      hl_id = ''h0'', hl_title = None\<rparr>"

section \<open>Properties\<close>

subsection \<open>The result of matching one highlight\<close>

lemma generateCandidates_Nil_left: "generateCandidates [] es = []"
  by (simp add: generateCandidates_def)

lemma generateCandidates_Nil_right: "generateCandidates ss [] = []"
  by (induction ss) (simp_all add: generateCandidates_def)

lemma matchHighlight_eq:
  "matchHighlight sd h =
     (if length (extractWords (hl_text h)) < 2 then Inr None
      else case survivingCandidates sd (extractWords (hl_text h)) of
             [] \<Rightarrow> Inr None
           | best # rest \<Rightarrow> Inr (Some best))"
proof (cases "length (extractWords (hl_text h)) < 2")
  case True
  then show ?thesis by (simp add: matchHighlight_def)
next
  case False
  define ws where "ws = extractWords (hl_text h)"
  have len: "\<not> length ws < 2" using False by (simp add: ws_def)
  then have i0: "js_index ws 0 = Some (ws ! 0)"
    and il: "js_index ws (length ws - 1) = Some (ws ! (length ws - 1))"
    by (cases ws; simp add: js_index_def)+
  show ?thesis
    unfolding matchHighlight_def ws_def[symmetric] Let_def
    using len
    by (auto simp: i0 il survivingCandidates_def js_index_def generateCandidates_Nil_left
        generateCandidates_Nil_right split: list.splits)
qed

lemma matchHighlight_total: "\<exists>r. matchHighlight sd h = Inr r"
  by (simp add: matchHighlight_eq split: list.splits)

lemma set_generateCandidates:
  "(c :: candidate) \<in> set (generateCandidates ss es) \<longleftrightarrow>
     cstart c \<in> set ss \<and> cend c \<in> set es \<and> cstart c < cend c \<and> cend c - cstart c \<le> 500"
proof -
  have ar: "\<And>s e :: nat. s < e \<and> int e - int s \<le> 500 \<longleftrightarrow> s < e \<and> e - s \<le> 500"
    by auto
  show ?thesis
    by (cases c) (auto simp: generateCandidates_def image_iff ar)
qed

lemma set_survivingCandidates:
  "c \<in> set (survivingCandidates sd ws) \<longleftrightarrow>
     cstart c \<in> set (findWordInSpans (ws ! 0) sd (- 1) \<infinity>) \<and>
     cend c \<in> set (findWordInSpans (ws ! (length ws - 1)) sd (- 1) \<infinity>) \<and>
     cstart c < cend c \<and> cend c - cstart c \<le> 500 \<and>
     containsAllWords sd (uniqueWords ws) c"
  by (auto simp: survivingCandidates_def set_generateCandidates)

lemma matchHighlight_Some_iff:
  "matchHighlight sd h = Inr (Some best) \<longleftrightarrow>
     2 \<le> length (extractWords (hl_text h)) \<and>
     (\<exists>rest. survivingCandidates sd (extractWords (hl_text h)) = best # rest)"
  by (auto simp: matchHighlight_eq split: list.splits)

lemma matchHighlight_None_iff:
  "matchHighlight sd h = Inr None \<longleftrightarrow>
     length (extractWords (hl_text h)) < 2 \<or> survivingCandidates sd (extractWords (hl_text h)) = []"
  by (auto simp: matchHighlight_eq split: list.splits)

lemma sorted_key_head_least:
  "sorted (map f (b # rest)) \<Longrightarrow> c \<in> set (b # rest) \<Longrightarrow> f b \<le> f c"
  by auto

lemma survivingCandidates_head_least:
  assumes "survivingCandidates sd ws = best # rest"
    and "c \<in> set (survivingCandidates sd ws)"
  shows "spanLength best \<le> spanLength c"
proof -
  have "sorted (map spanLength (survivingCandidates sd ws))"
    unfolding survivingCandidates_def by (simp add: filter_sort)
  with assms show ?thesis
    using sorted_key_head_least[of spanLength best rest c] by simp
qed

lemma scenario_A:
  "matchHighlight (fragments [''Data'', ''privacy'', ''requires'', ''consent'', ''from'', ''users''])
     (target ''privacy requires consent'') = Inr (Some \<lparr>cstart = 1, cend = 3\<rparr>)"
  by code_simp

lemma scenario_two_runs:
  "matchHighlight (fragments [''privacy'', ''x'', ''consent'', ''privacy'', ''consent''])
     (target ''privacy consent'') = Inr (Some \<lparr>cstart = 3, cend = 4\<rparr>)"
  by code_simp

subsection \<open>Bounds of a matched range\<close>

text \<open>
  Claim C5. Every matched range \<open>{start, end}\<close> satisfies \<open>start \<le> end\<close> and
  \<open>end - start \<le> 500\<close>: no range the matcher selects has its end before its start or
  spans more than the window of 500 fragments.
\<close>

theorem C5_range_bounds:
  "matchHighlight sd h = Inr (Some best) \<Longrightarrow>
     cstart best \<le> cend best \<and> cend best - cstart best \<le> 500"
proof -
  assume "matchHighlight sd h = Inr (Some best)"
  then have "best \<in> set (survivingCandidates sd (extractWords (hl_text h)))"
    by (auto simp: matchHighlight_Some_iff)
  then show ?thesis by (simp add: set_survivingCandidates)
qed

theorem C5_range_bounds_witness:
  "matchHighlight (fragments [''Data'', ''privacy'', ''requires'', ''consent'', ''from'', ''users''])
     (target ''privacy requires consent'') = Inr (Some \<lparr>cstart = 1, cend = 3\<rparr>)
   \<and> cstart \<lparr>cstart = 1, cend = 3\<rparr> \<le> cend \<lparr>cstart = 1, cend = 3\<rparr>
   \<and> cend \<lparr>cstart = 1, cend = 3\<rparr> - cstart \<lparr>cstart = 1, cend = 3\<rparr> \<le> 500"
  using C5_range_bounds[OF scenario_A] scenario_A by simp

subsection \<open>The smallest span\<close>

text \<open>
  Claim C3. When a highlight receives the range \<open>best\<close>, every other candidate range (its
  start among the start positions of the first word, its end among the end positions of the
  last word, \<open>end > start\<close>, \<open>end - start \<le> 500\<close>) that passes the word-coverage filter
  has a span length \<open>end - start\<close> at least that of \<open>best\<close>.
\<close>

theorem C3_smallest_span:
  assumes "matchHighlight sd h = Inr (Some best)"
    and "ws = extractWords (hl_text h)"
    and "s \<in> set (findWordInSpans (ws ! 0) sd (- 1) \<infinity>)"
    and "e \<in> set (findWordInSpans (ws ! (length ws - 1)) sd (- 1) \<infinity>)"
    and "s < e" and "e - s \<le> 500"
    and "containsAllWords sd (uniqueWords ws) \<lparr>cstart = s, cend = e\<rparr>"
  shows "cend best - cstart best \<le> e - s"
proof -
  from assms(1,2) obtain rest where hd: "survivingCandidates sd ws = best # rest"
    by (auto simp: matchHighlight_Some_iff)
  have "\<lparr>cstart = s, cend = e\<rparr> \<in> set (survivingCandidates sd ws)"
    using assms(3-7) by (simp add: set_survivingCandidates)
  from survivingCandidates_head_least[OF hd this]
  have "spanLength best \<le> int e - int s" by (simp add: spanLength_def)
  moreover have "best \<in> set (survivingCandidates sd ws)" using hd by simp
  then have "cstart best < cend best" by (simp add: set_survivingCandidates)
  ultimately show ?thesis using \<open>s < e\<close> by (simp add: spanLength_def)
qed


theorem C3_smallest_span_witness:
  "matchHighlight (fragments [''privacy'', ''x'', ''consent'', ''privacy'', ''consent''])
     (target ''privacy consent'') = Inr (Some \<lparr>cstart = 3, cend = 4\<rparr>)
   \<and> 0 \<in> set (findWordInSpans ''privacy''
                (fragments [''privacy'', ''x'', ''consent'', ''privacy'', ''consent'']) (- 1) \<infinity>)
   \<and> 2 \<in> set (findWordInSpans ''consent''
                (fragments [''privacy'', ''x'', ''consent'', ''privacy'', ''consent'']) (- 1) \<infinity>)
   \<and> containsAllWords (fragments [''privacy'', ''x'', ''consent'', ''privacy'', ''consent''])
         (uniqueWords [''privacy'', ''consent'']) \<lparr>cstart = 0, cend = 2\<rparr>
   \<and> cend \<lparr>cstart = 3, cend = 4\<rparr> - cstart \<lparr>cstart = 3, cend = 4\<rparr> \<le> (2::nat) - 0"
proof -
  let ?sd = "fragments [''privacy'', ''x'', ''consent'', ''privacy'', ''consent'']"
  have ws: "[''privacy'', ''consent''] = extractWords (hl_text (target ''privacy consent''))"
    by code_simp
  have s: "0 \<in> set (findWordInSpans ([''privacy'', ''consent''] ! 0) ?sd (- 1) \<infinity>)"
    by code_simp
  have e: "2 \<in> set (findWordInSpans ([''privacy'', ''consent''] ! (length [''privacy'', ''consent''] - 1)) ?sd (- 1) \<infinity>)"
    by code_simp
  have c: "containsAllWords ?sd (uniqueWords [''privacy'', ''consent'']) \<lparr>cstart = 0, cend = 2\<rparr>"
    by code_simp
  have lt: "(0::nat) < 2" and le: "(2::nat) - 0 \<le> 500" by simp_all
  from C3_smallest_span[OF scenario_two_runs ws s e lt le c] scenario_two_runs s e c
  show ?thesis by simp
qed

subsection \<open>Loose matching and word coverage\<close>

lemma str_includes_iff: "str_includes s t \<longleftrightarrow> sublist t s"
  by (induction s) (simp_all add: sublist_Cons_right)

lemma wordsMatch_iff: "wordsMatch a b \<longleftrightarrow> sublist b a \<or> sublist a b"
  by (simp add: wordsMatch_def str_includes_iff)

lemma set_setValues: "set (setValues xs) = set xs"
  by (simp add: setValues_def)

lemma set_uniqueWords: "set (uniqueWords ws) = set ws - set commonWords"
  by (auto simp: uniqueWords_def set_setValues)

lemma spanWords_at:
  "(case js_index sd i of None \<Rightarrow> [] | Some sp \<Rightarrow> words sp) =
     (if i < length sd then words (sd ! i) else [])"
  by (simp add: js_index_def)

lemma set_rangeWords:
  "rw \<in> set (rangeWords sd c) \<longleftrightarrow>
     (\<exists>i. cstart c \<le> i \<and> i \<le> cend c \<and> i < length sd \<and> rw \<in> set (words (sd ! i)))"
proof -
  have "set (rangeWords sd c) =
          (\<Union>i \<in> {cstart c ..< Suc (cend c)}. set (if i < length sd then words (sd ! i) else []))"
    unfolding rangeWords_def set_setValues spanWords_at
    by (auto simp del: upt_Suc split: if_splits)
  then show ?thesis
    by (auto simp del: upt_Suc split: if_splits)
qed

lemma containsAllWords_iff:
  "containsAllWords sd uw c \<longleftrightarrow>
     (\<forall>w \<in> set uw. \<exists>rw \<in> set (rangeWords sd c). wordsMatch w rw)"
  by (simp add: containsAllWords_def list_all_iff list_ex_iff)

text \<open>
  Claim C4. For every matched range, every unique significant word of the highlight (a
  normalized word of its text that is not in the stop-word list) loose-matches a normalized
  word of one of the fragments \<open>start..end\<close>: one of the two is a contiguous piece of the
  other.
\<close>

theorem C4_word_coverage:
  assumes "matchHighlight sd h = Inr (Some best)"
    and "w \<in> set (extractWords (hl_text h))"
    and "w \<notin> set commonWords"
  shows "\<exists>i rw. cstart best \<le> i \<and> i \<le> cend best \<and> i < length sd \<and>
           rw \<in> set (words (sd ! i)) \<and> (sublist w rw \<or> sublist rw w)"
proof -
  from assms(1) have "best \<in> set (survivingCandidates sd (extractWords (hl_text h)))"
    by (auto simp: matchHighlight_Some_iff)
  then have "containsAllWords sd (uniqueWords (extractWords (hl_text h))) best"
    by (simp add: set_survivingCandidates)
  moreover have "w \<in> set (uniqueWords (extractWords (hl_text h)))"
    using assms(2,3) by (simp add: set_uniqueWords)
  ultimately obtain rw where r: "rw \<in> set (rangeWords sd best)" and m: "wordsMatch w rw"
    by (auto simp: containsAllWords_iff)
  from r obtain i where "cstart best \<le> i" "i \<le> cend best" "i < length sd"
      "rw \<in> set (words (sd ! i))"
    unfolding set_rangeWords by blast
  moreover from m have "sublist w rw \<or> sublist rw w"
    unfolding wordsMatch_iff by blast
  ultimately show ?thesis by blast
qed

theorem C4_word_coverage_witness:
  "matchHighlight (fragments [''Data'', ''privacy'', ''requires'', ''consent'', ''from'', ''users''])
     (target ''privacy requires consent'') = Inr (Some \<lparr>cstart = 1, cend = 3\<rparr>)
   \<and> ''requires'' \<in> set (extractWords (hl_text (target ''privacy requires consent'')))
   \<and> ''requires'' \<notin> set commonWords
   \<and> (\<exists>i rw. cstart \<lparr>cstart = 1, cend = 3\<rparr> \<le> i \<and> i \<le> cend \<lparr>cstart = 1, cend = 3\<rparr>
        \<and> i < length (fragments [''Data'', ''privacy'', ''requires'', ''consent'', ''from'', ''users''])
        \<and> rw \<in> set (words (fragments [''Data'', ''privacy'', ''requires'', ''consent'', ''from'', ''users''] ! i))
        \<and> (sublist ''requires'' rw \<or> sublist rw ''requires''))"
proof -
  have w: "''requires'' \<in> set (extractWords (hl_text (target ''privacy requires consent'')))"
    by code_simp
  have n: "''requires'' \<notin> set commonWords"
    by code_simp
  from C4_word_coverage[OF scenario_A w n] scenario_A w n show ?thesis
    by (intro conjI)
qed

subsection \<open>Highlights with too few words\<close>

text \<open>
  Claim C1 reads: a highlight whose normalized text has fewer than 2 significant words
  (normalized tokens of length 3 or more that are not stop words) gets no range. The guard
  of the source counts all normalized words, stop words included: the text \<open>the data\<close> has
  one significant word and is matched.
\<close>

theorem C1_counterexample:
  "length (significantWords ''the data'') < 2 \<and>
   matchHighlight (fragments [''the'', ''data'']) (target ''the data'')
     = Inr (Some \<lparr>cstart = 0, cend = 1\<rparr>)"
  by code_simp

text \<open>
  Claim C1, amended. A highlight whose normalized word sequence (the tokens of length 3 or
  more, stop words and repetitions included) has fewer than 2 entries gets no range, and the
  pass goes on to the next highlight without tagging any span for it.
\<close>

theorem C1_too_few_words:
  "length (extractWords (hl_text h)) < 2 \<Longrightarrow>
     matchHighlight sd h = Inr None \<and>
     processHighlights v sd (h # rest) st = processHighlights v sd rest st"
  by (simp add: matchHighlight_def)

theorem C1_too_few_words_witness:
  "length (extractWords (hl_text (target ''data''))) < 2 \<and>
   matchHighlight (fragments [''data'', ''data'']) (target ''data'') = Inr None \<and>
   processHighlights idleViewer (fragments [''data'', ''data'']) [target ''data'']
       (collectSpans [(1, [textSpan ''data'', textSpan ''data''])])
     = Inr (collectSpans [(1, [textSpan ''data'', textSpan ''data''])])"
proof -
  have l: "length (extractWords (hl_text (target ''data''))) < 2" by code_simp
  from C1_too_few_words[OF l, of "fragments [''data'', ''data'']" idleViewer "[]"
      "collectSpans [(1, [textSpan ''data'', textSpan ''data''])]"] l
  show ?thesis by simp
qed

subsection \<open>A matched range has two fragments or more\<close>




subsection \<open>The pass never throws\<close>

lemma processHighlights_total: "\<exists>st'. processHighlights v sd hs st = Inr st'"
proof (induction hs arbitrary: st)
  case Nil
  show ?case by simp
next
  case (Cons h hs)
  obtain r where r: "matchHighlight sd h = Inr r"
    using matchHighlight_total by blast
  show ?case
  proof (cases r)
    case None
    with r Cons show ?thesis by simp
  next
    case (Some best)
    with r Cons show ?thesis by simp
  qed
qed

lemma applyHighlights_total: "\<exists>st. applyHighlights v pages hs = Inr st"
  by (simp add: applyHighlights_def Let_def processHighlights_total)

lemma collectSpans_cleared:
  "si \<in> set (collectSpans pages) \<Longrightarrow> \<exists>el. span si = clearHighlight el"
  by (auto simp: collectSpans_def)

lemma clearHighlight_fields:
  "backgroundColor (clearHighlight el) = ''''"
  "borderRadius (clearHighlight el) = ''''"
  "cursor (clearHighlight el) = ''''"
  "title (clearHighlight el) = ''''"
  "highlightId (clearHighlight el) = None"
  "highlightSummary (clearHighlight el) = None"
  "highlightTitle (clearHighlight el) = None"
  "onclick (clearHighlight el) = None"
  "onmouseenter (clearHighlight el) = None"
  "onmouseleave (clearHighlight el) = None"
  "textContent (clearHighlight el) = textContent el"
  by (simp_all add: clearHighlight_def)

text \<open>
  Claim C7. The matcher is total and never throws: matching a highlight and the whole pass
  always return (no \<^verbatim>\<open>TypeError\<close>). With no fragments the pass returns at once and
  tags nothing; with no highlights it returns the cleared spans, none of which carries a
  highlight id. A highlight is given no range when it has too few words, when the start or
  the end positions are empty, when no candidate lies within the window, or when no
  candidate passes the coverage filter; and after a highlight without a range the pass goes
  on with the remaining highlights as if it had not been there.
\<close>

theorem C7_total:
  "(\<exists>r. matchHighlight sd h = Inr r) \<and>
   (\<exists>st'. applyHighlights v pages hs = Inr st') \<and>
   applyHighlights v [] hs = Inr [] \<and>
   applyHighlights v pages [] = Inr (collectSpans pages) \<and>
   (\<forall>si \<in> set (collectSpans pages). highlightId (span si) = None) \<and>
   (length (extractWords (hl_text h)) < 2 \<longrightarrow> matchHighlight sd h = Inr None) \<and>
   (findWordInSpans (extractWords (hl_text h) ! 0) sd (- 1) \<infinity> = [] \<or>
    findWordInSpans (extractWords (hl_text h) ! (length (extractWords (hl_text h)) - 1)) sd (- 1) \<infinity> = []
      \<longrightarrow> matchHighlight sd h = Inr None) \<and>
   (generateCandidates (findWordInSpans (extractWords (hl_text h) ! 0) sd (- 1) \<infinity>)
      (findWordInSpans (extractWords (hl_text h) ! (length (extractWords (hl_text h)) - 1)) sd (- 1) \<infinity>) = []
      \<longrightarrow> matchHighlight sd h = Inr None) \<and>
   (survivingCandidates sd (extractWords (hl_text h)) = [] \<longrightarrow> matchHighlight sd h = Inr None) \<and>
   (matchHighlight sd h = Inr None \<longrightarrow>
      processHighlights v sd (h # rest) st = processHighlights v sd rest st)"
proof (intro conjI impI ballI)
  show "\<exists>r. matchHighlight sd h = Inr r" by (rule matchHighlight_total)
  show "\<exists>st'. applyHighlights v pages hs = Inr st'" by (rule applyHighlights_total)
  show "applyHighlights v [] hs = Inr []"
    by (simp add: applyHighlights_def collectSpans_def)
  show "applyHighlights v pages [] = Inr (collectSpans pages)"
    by (simp add: applyHighlights_def Let_def)
next
  fix si assume "si \<in> set (collectSpans pages)"
  then show "highlightId (span si) = None"
    using collectSpans_cleared clearHighlight_fields(5) by metis
next
  assume "length (extractWords (hl_text h)) < 2"
  then show "matchHighlight sd h = Inr None" by (simp add: matchHighlight_None_iff)
next
  assume "findWordInSpans (extractWords (hl_text h) ! 0) sd (- 1) \<infinity> = [] \<or>
    findWordInSpans (extractWords (hl_text h) ! (length (extractWords (hl_text h)) - 1)) sd (- 1) \<infinity> = []"
  then have "survivingCandidates sd (extractWords (hl_text h)) = []"
    unfolding survivingCandidates_def
    by (auto simp: generateCandidates_Nil_left generateCandidates_Nil_right)
  then show "matchHighlight sd h = Inr None" by (simp add: matchHighlight_None_iff)
next
  assume "generateCandidates (findWordInSpans (extractWords (hl_text h) ! 0) sd (- 1) \<infinity>)
      (findWordInSpans (extractWords (hl_text h) ! (length (extractWords (hl_text h)) - 1)) sd (- 1) \<infinity>) = []"
  then have "survivingCandidates sd (extractWords (hl_text h)) = []"
    unfolding survivingCandidates_def by simp
  then show "matchHighlight sd h = Inr None" by (simp add: matchHighlight_None_iff)
next
  assume "survivingCandidates sd (extractWords (hl_text h)) = []"
  then show "matchHighlight sd h = Inr None" by (simp add: matchHighlight_None_iff)
next
  assume "matchHighlight sd h = Inr None"
  then show "processHighlights v sd (h # rest) st = processHighlights v sd rest st" by simp
qed

theorem C7_total_witness:
  "findWordInSpans (extractWords (hl_text (target ''GDPR compliance mandate'')) ! 0)
     (fragments [''Data'', ''privacy'', ''requires'', ''consent'', ''from'', ''users'']) (- 1) \<infinity> = []
   \<and> matchHighlight (fragments [''Data'', ''privacy'', ''requires'', ''consent'', ''from'', ''users''])
         (target ''GDPR compliance mandate'') = Inr None
   \<and> processHighlights idleViewer
         (fragments [''Data'', ''privacy'', ''requires'', ''consent'', ''from'', ''users''])
         [target ''GDPR compliance mandate'', target ''privacy requires consent'']
         (collectSpans [(1, map textSpan [''Data'', ''privacy'', ''requires'', ''consent'', ''from'', ''users''])])
       = processHighlights idleViewer
           (fragments [''Data'', ''privacy'', ''requires'', ''consent'', ''from'', ''users''])
           [target ''privacy requires consent'']
           (collectSpans [(1, map textSpan [''Data'', ''privacy'', ''requires'', ''consent'', ''from'', ''users''])])
   \<and> applyHighlights idleViewer [] [target ''GDPR compliance mandate''] = Inr []"
proof -
  let ?sd = "fragments [''Data'', ''privacy'', ''requires'', ''consent'', ''from'', ''users'']"
  let ?h = "target ''GDPR compliance mandate''"
  let ?st = "collectSpans [(1, map textSpan [''Data'', ''privacy'', ''requires'', ''consent'', ''from'', ''users''])]"
  note T = C7_total[of ?sd ?h idleViewer "[]" "[?h]" "[target ''privacy requires consent'']" ?st]
  have s: "findWordInSpans (extractWords (hl_text ?h) ! 0) ?sd (- 1) \<infinity> = []"
    by code_simp
  from T s have n: "matchHighlight ?sd ?h = Inr None" by blast
  from T n have k: "processHighlights idleViewer ?sd [?h, target ''privacy requires consent''] ?st
      = processHighlights idleViewer ?sd [target ''privacy requires consent''] ?st" by blast
  from T have e: "applyHighlights idleViewer [] [?h] = Inr []" by blast
  from s n k e show ?thesis by (intro conjI)
qed

subsection \<open>The range depends on the text only\<close>

text \<open>
  Claim C9. The range computed for a highlight depends on its text and on the fragments
  only, not on its page, id, summary or title: two highlights with the same text get the
  same range over the same fragments. The range may lie on a page other than the one the
  highlight declares: a highlight declaring page 1 is matched to the fragments 1..2, both
  on page 2.
\<close>

theorem C9_metadata_independent:
  "(hl_text h1 = hl_text h2 \<longrightarrow> matchHighlight sd h1 = matchHighlight sd h2) \<and>
   hl_page (target ''privacy consent'') = 1 \<and>
   matchHighlight
     (buildSpanData (collectSpans [(1, [textSpan ''intro'']),
                                   (2, [textSpan ''privacy'', textSpan ''consent''])]))
     (target ''privacy consent'') = Inr (Some \<lparr>cstart = 1, cend = 2\<rparr>) \<and>
   map pageNum (collectSpans [(1, [textSpan ''intro'']),
                              (2, [textSpan ''privacy'', textSpan ''consent''])]) = [1, 2, 2]"
proof (intro conjI impI)
  assume "hl_text h1 = hl_text h2"
  then show "matchHighlight sd h1 = matchHighlight sd h2"
    by (simp add: matchHighlight_def)
next
  show "hl_page (target ''privacy consent'') = 1"
    by (simp add: target_def)
next
  show "matchHighlight
     (buildSpanData (collectSpans [(1, [textSpan ''intro'']),
                                   (2, [textSpan ''privacy'', textSpan ''consent''])]))
     (target ''privacy consent'') = Inr (Some \<lparr>cstart = 1, cend = 2\<rparr>)"
    by code_simp
next
  show "map pageNum (collectSpans [(1, [textSpan ''intro'']),
                              (2, [textSpan ''privacy'', textSpan ''consent''])]) = [1, 2, 2]"
    by code_simp
qed

theorem C9_metadata_independent_witness:
  "hl_text (target ''privacy requires consent'')
     = hl_text \<lparr>hl_page = 7, hl_text = ''privacy requires consent'', hl_summary = ''other'',
                hl_id = ''h2'', hl_title = Some ''Consent''\<rparr>
   \<and> matchHighlight (fragments [''Data'', ''privacy'', ''requires'', ''consent'', ''from'', ''users''])
         \<lparr>hl_page = 7, hl_text = ''privacy requires consent'', hl_summary = ''other'',
          hl_id = ''h2'', hl_title = Some ''Consent''\<rparr>
       = matchHighlight (fragments [''Data'', ''privacy'', ''requires'', ''consent'', ''from'', ''users''])
           (target ''privacy requires consent'')"
proof -
  have t: "hl_text (target ''privacy requires consent'')
     = hl_text \<lparr>hl_page = 7, hl_text = ''privacy requires consent'', hl_summary = ''other'',
                hl_id = ''h2'', hl_title = Some ''Consent''\<rparr>"
    by (simp add: target_def)
  from C9_metadata_independent[of "target ''privacy requires consent''"
      "\<lparr>hl_page = 7, hl_text = ''privacy requires consent'', hl_summary = ''other'',
        hl_id = ''h2'', hl_title = Some ''Consent''\<rparr>"
      "fragments [''Data'', ''privacy'', ''requires'', ''consent'', ''from'', ''users'']"] t
  show ?thesis by simp
qed

subsection \<open>Ties between candidates of the smallest span\<close>

lemma map_index_buildSpanData: "map index (buildSpanData allSpans) = [0..<length allSpans]"
proof -
  have "map index (buildSpanData allSpans) = map fst (List.enumerate 0 allSpans)"
    by (simp add: buildSpanData_def split_def comp_def)
  then show ?thesis by simp
qed

lemma findWordInSpans_ascending:
  "sorted_wrt (<) (findWordInSpans w (buildSpanData allSpans) a b)"
proof -
  have "sorted_wrt (<) (map index (buildSpanData allSpans))"
    by (simp add: map_index_buildSpanData)
  then have "sorted_wrt (\<lambda>x y. index x < index y) (buildSpanData allSpans)"
    by (simp add: sorted_wrt_map)
  then show ?thesis
    unfolding findWordInSpans_def sorted_wrt_map by (rule sorted_wrt_filter)
qed

lemma generateCandidates_Cons:
  "generateCandidates (s # ss) es =
     map (\<lambda>e. \<lparr>cstart = s, cend = e\<rparr>) (filter (\<lambda>e. e > s \<and> int e - int s \<le> 500) es)
     @ generateCandidates ss es"
  by (simp add: generateCandidates_def)

lemma generateCandidates_enumerated:
  assumes "sorted_wrt (<) ss" and "sorted_wrt (<) es"
  shows "sorted_wrt enumeratedBefore (generateCandidates ss es)"
  using assms(1)
proof (induction ss)
  case Nil
  show ?case by (simp add: generateCandidates_Nil_left)
next
  case (Cons s ss)
  have row: "sorted_wrt enumeratedBefore
               (map (\<lambda>e. \<lparr>cstart = s, cend = e\<rparr>) (filter (\<lambda>e. e > s \<and> int e - int s \<le> 500) es))"
    unfolding sorted_wrt_map
    by (rule sorted_wrt_filter) (simp add: enumeratedBefore_def assms(2))
  have rest: "sorted_wrt enumeratedBefore (generateCandidates ss es)"
    using Cons by simp
  have cross: "enumeratedBefore x y"
    if "x \<in> set (map (\<lambda>e. \<lparr>cstart = s, cend = e\<rparr>) (filter (\<lambda>e. e > s \<and> int e - int s \<le> 500) es))"
      and "y \<in> set (generateCandidates ss es)" for x y
  proof -
    from that(1) have "cstart x = s" by auto
    moreover from that(2) have "cstart y \<in> set ss" by (simp add: set_generateCandidates)
    moreover from Cons.prems have "\<forall>t \<in> set ss. s < t" by simp
    ultimately show ?thesis by (simp add: enumeratedBefore_def)
  qed
  show ?case
    unfolding generateCandidates_Cons sorted_wrt_append
    using row rest cross by blast
qed

lemma stable_filter_head:
  assumes "filter P (sort_key f xs) = b # rest"
  shows "\<exists>rest'. filter (\<lambda>y. P y \<and> f y = f b) xs = b # rest'"
proof -
  have "filter (\<lambda>y. f y = f b) (filter P (sort_key f xs))
          = filter P (filter (\<lambda>y. f y = f b) (sort_key f xs))"
    by (simp add: conj_commute)
  also have "\<dots> = filter P (filter (\<lambda>y. f y = f b) xs)"
    by (simp only: sort_key_stable)
  also have "\<dots> = filter (\<lambda>y. P y \<and> f y = f b) xs"
    by (simp add: conj_commute)
  finally have "filter (\<lambda>y. P y \<and> f y = f b) xs = filter (\<lambda>y. f y = f b) (b # rest)"
    using assms by simp
  then show ?thesis by simp
qed

text \<open>
  Claim C6. The candidates are enumerated by start index and, for one start index, by end
  index; the list is sorted stably by span length, filtered, and its first entry taken. So
  the selected range \<open>best\<close> is itself a candidate that passes the coverage filter, no
  candidate \<open>{s, e}\<close> that passes the filter has a smaller span length, and when several
  share the smallest span length the matcher selects the one with the earliest start index,
  and among those the one with the earliest end index: a surviving candidate of the same
  span length as \<open>best\<close> starts no earlier than it, and ends no earlier when it starts at
  the same fragment.
\<close>

theorem C6_tie_break:
  assumes "matchHighlight (buildSpanData allSpans) h = Inr (Some best)"
    and "ws = extractWords (hl_text h)"
    and "s \<in> set (findWordInSpans (ws ! 0) (buildSpanData allSpans) (- 1) \<infinity>)"
    and "e \<in> set (findWordInSpans (ws ! (length ws - 1)) (buildSpanData allSpans) (- 1) \<infinity>)"
    and "s < e" and "e - s \<le> 500"
    and "containsAllWords (buildSpanData allSpans) (uniqueWords ws) \<lparr>cstart = s, cend = e\<rparr>"
  shows "sorted_wrt enumeratedBefore
           (generateCandidates (findWordInSpans (ws ! 0) (buildSpanData allSpans) (- 1) \<infinity>)
              (findWordInSpans (ws ! (length ws - 1)) (buildSpanData allSpans) (- 1) \<infinity>))
         \<and> cstart best \<in> set (findWordInSpans (ws ! 0) (buildSpanData allSpans) (- 1) \<infinity>)
         \<and> cend best \<in> set (findWordInSpans (ws ! (length ws - 1)) (buildSpanData allSpans) (- 1) \<infinity>)
         \<and> cstart best < cend best \<and> cend best - cstart best \<le> 500
         \<and> containsAllWords (buildSpanData allSpans) (uniqueWords ws) best
         \<and> cend best - cstart best \<le> e - s
         \<and> (e - s = cend best - cstart best \<longrightarrow>
              cstart best \<le> s \<and> (s = cstart best \<longrightarrow> cend best \<le> e))"
proof -
  let ?sd = "buildSpanData allSpans"
  let ?cands = "generateCandidates (findWordInSpans (ws ! 0) ?sd (- 1) \<infinity>)
                  (findWordInSpans (ws ! (length ws - 1)) ?sd (- 1) \<infinity>)"
  let ?P = "containsAllWords ?sd (uniqueWords ws)"
  let ?c = "\<lparr>cstart = s, cend = e\<rparr>"
  have enum: "sorted_wrt enumeratedBefore ?cands"
    by (rule generateCandidates_enumerated) (rule findWordInSpans_ascending)+
  from assms(1,2) obtain rest where hd: "survivingCandidates ?sd ws = best # rest"
    by (auto simp: matchHighlight_Some_iff)
  then have r: "filter ?P (sort_key spanLength ?cands) = best # rest"
    by (simp add: survivingCandidates_def)
  have "best \<in> set (survivingCandidates ?sd ws)" using hd by simp
  then have member: "cstart best \<in> set (findWordInSpans (ws ! 0) ?sd (- 1) \<infinity>)
      \<and> cend best \<in> set (findWordInSpans (ws ! (length ws - 1)) ?sd (- 1) \<infinity>)
      \<and> cstart best < cend best \<and> cend best - cstart best \<le> 500 \<and> ?P best"
    by (simp add: set_survivingCandidates)
  have cin: "?c \<in> set (survivingCandidates ?sd ws)"
    using assms(3-7) by (simp add: set_survivingCandidates)
  from survivingCandidates_head_least[OF hd cin]
  have "spanLength best \<le> int e - int s" by (simp add: spanLength_def)
  with member assms(5) have least: "cend best - cstart best \<le> e - s"
    by (simp add: spanLength_def)
  have tie: "cstart best \<le> s \<and> (s = cstart best \<longrightarrow> cend best \<le> e)"
    if eq: "e - s = cend best - cstart best"
  proof -
    from stable_filter_head[OF r] obtain rest' where
      ties: "filter (\<lambda>y. ?P y \<and> spanLength y = spanLength best) ?cands = best # rest'"
      by blast
    have "sorted_wrt enumeratedBefore (filter (\<lambda>y. ?P y \<and> spanLength y = spanLength best) ?cands)"
      using enum by (rule sorted_wrt_filter)
    then have first: "\<forall>c \<in> set rest'. enumeratedBefore best c"
      unfolding ties by simp
    from member assms(5) eq have len: "spanLength ?c = spanLength best"
      by (simp add: spanLength_def)
    have "?c \<in> set ?cands"
      using assms(3-6) by (simp add: set_generateCandidates)
    with assms(7) len
    have "?c \<in> set (filter (\<lambda>y. ?P y \<and> spanLength y = spanLength best) ?cands)" by simp
    then have "?c = best \<or> ?c \<in> set rest'"
      unfolding ties by simp
    then show ?thesis
    proof
      assume "?c = best"
      then have "cstart best = s" "cend best = e" by auto
      then show ?thesis by simp
    next
      assume "?c \<in> set rest'"
      with first have "enumeratedBefore best ?c" by blast
      then show ?thesis by (auto simp: enumeratedBefore_def)
    qed
  qed
  from enum member least tie show ?thesis by blast
qed

theorem C6_tie_break_witness:
  "matchHighlight
     (buildSpanData (collectSpans [(1, map textSpan
        [''privacy'', ''x'', ''consent'', ''privacy'', ''consent'', ''privacy'', ''consent''])]))
     (target ''privacy consent'') = Inr (Some \<lparr>cstart = 3, cend = 4\<rparr>)
   \<and> containsAllWords
         (buildSpanData (collectSpans [(1, map textSpan
            [''privacy'', ''x'', ''consent'', ''privacy'', ''consent'', ''privacy'', ''consent''])]))
         (uniqueWords [''privacy'', ''consent'']) \<lparr>cstart = 0, cend = 2\<rparr>
   \<and> containsAllWords
         (buildSpanData (collectSpans [(1, map textSpan
            [''privacy'', ''x'', ''consent'', ''privacy'', ''consent'', ''privacy'', ''consent''])]))
         (uniqueWords [''privacy'', ''consent'']) \<lparr>cstart = 5, cend = 6\<rparr>
   \<and> cend \<lparr>cstart = 3, cend = 4\<rparr> - cstart \<lparr>cstart = 3, cend = 4\<rparr> \<le> (2::nat) - 0
   \<and> (6::nat) - 5 = cend \<lparr>cstart = 3, cend = 4\<rparr> - cstart \<lparr>cstart = 3, cend = 4\<rparr>
   \<and> cstart \<lparr>cstart = 3, cend = 4\<rparr> \<le> 5"
proof -
  let ?all = "collectSpans [(1, map textSpan
        [''privacy'', ''x'', ''consent'', ''privacy'', ''consent'', ''privacy'', ''consent''])]"
  let ?ws = "[''privacy'', ''consent'']"
  let ?best = "\<lparr>cstart = 3, cend = 4\<rparr>"
  have m: "matchHighlight (buildSpanData ?all) (target ''privacy consent'') = Inr (Some ?best)"
    by code_simp
  have ws: "?ws = extractWords (hl_text (target ''privacy consent''))"
    by code_simp
  have s0: "0 \<in> set (findWordInSpans (?ws ! 0) (buildSpanData ?all) (- 1) \<infinity>)"
    and s5: "5 \<in> set (findWordInSpans (?ws ! 0) (buildSpanData ?all) (- 1) \<infinity>)"
    by code_simp+
  have e2: "2 \<in> set (findWordInSpans (?ws ! (length ?ws - 1)) (buildSpanData ?all) (- 1) \<infinity>)"
    and e6: "6 \<in> set (findWordInSpans (?ws ! (length ?ws - 1)) (buildSpanData ?all) (- 1) \<infinity>)"
    by code_simp+
  have c02: "containsAllWords (buildSpanData ?all) (uniqueWords ?ws) \<lparr>cstart = 0, cend = 2\<rparr>"
    and c56: "containsAllWords (buildSpanData ?all) (uniqueWords ?ws) \<lparr>cstart = 5, cend = 6\<rparr>"
    by code_simp+
  have a: "(0::nat) < 2" "(2::nat) - 0 \<le> 500" "(5::nat) < 6" "(6::nat) - 5 \<le> 500"
    by simp_all
  from C6_tie_break[OF m ws s0 e2 a(1,2) c02]
  have least: "cend ?best - cstart ?best \<le> (2::nat) - 0" by blast
  have eq: "(6::nat) - 5 = cend ?best - cstart ?best" by simp
  from C6_tie_break[OF m ws s5 e6 a(3,4) c56] eq
  have first: "cstart ?best \<le> 5" by blast
  from m c02 c56 least eq first show ?thesis by (intro conjI)
qed

subsection \<open>Tags of earlier passes\<close>

lemma length_collectSpans: "length (collectSpans pages) = length (concat (map snd pages))"
  by (induction pages) (auto simp: collectSpans_def)

lemma map_snd_enumerate_fun: "map (\<lambda>p. f (snd p)) (List.enumerate n xs) = map f xs"
  by (induction xs arbitrary: n) simp_all

lemma collectSpans_nth:
  "i < length (concat (map snd pages)) \<Longrightarrow>
     span (collectSpans pages ! i) = clearHighlight (concat (map snd pages) ! i)"
proof -
  have "map span (collectSpans pages) = map clearHighlight (concat (map snd pages))"
    by (induction pages) (simp_all add: collectSpans_def split_def comp_def map_snd_enumerate_fun)
  moreover assume "i < length (concat (map snd pages))"
  ultimately show ?thesis
    by (metis length_collectSpans nth_map)
qed

lemma tagLoop_length:
  "length (fold (\<lambda>i st'. case js_index st' i of None \<Rightarrow> st' | Some si \<Rightarrow> st'[i := g si]) js st)
     = length st"
  by (induction js arbitrary: st) (auto simp: js_index_def)

lemma tagLoop_outside:
  "i \<notin> set js \<Longrightarrow>
     fold (\<lambda>i st'. case js_index st' i of None \<Rightarrow> st' | Some si \<Rightarrow> st'[i := g si]) js st ! i
       = st ! i"
  by (induction js arbitrary: st) (auto simp: js_index_def)

lemma length_highlightRange: "length (highlightRange v h best st) = length st"
  unfolding highlightRange_def by (rule tagLoop_length)

lemma highlightRange_outside:
  "i < cstart best \<or> cend best < i \<Longrightarrow> highlightRange v h best st ! i = st ! i"
  unfolding highlightRange_def by (rule tagLoop_outside) auto

lemma processHighlights_outside:
  assumes "processHighlights v sd hs st = Inr st'"
    and "\<forall>h \<in> set hs. \<forall>best. matchHighlight sd h = Inr (Some best) \<longrightarrow> i < cstart best \<or> cend best < i"
  shows "length st' = length st \<and> st' ! i = st ! i"
  using assms
proof (induction hs arbitrary: st)
  case Nil
  then show ?case by simp
next
  case (Cons h hs)
  obtain r where r: "matchHighlight sd h = Inr r"
    using matchHighlight_total by blast
  show ?case
  proof (cases r)
    case None
    with r Cons.prems have "processHighlights v sd hs st = Inr st'" by simp
    with Cons.IH Cons.prems(2) show ?thesis by simp
  next
    case (Some best)
    with r Cons.prems have p: "processHighlights v sd hs (highlightRange v h best st) = Inr st'"
      by simp
    from Cons.prems(2) r Some have out: "i < cstart best \<or> cend best < i" by simp
    from Cons.IH[OF p] Cons.prems(2)
    have "length st' = length (highlightRange v h best st) \<and> st' ! i = highlightRange v h best st ! i"
      by simp
    with out show ?thesis
      by (simp add: length_highlightRange highlightRange_outside)
  qed
qed

text \<open>
  What a pass does clear. Whatever state the spans had before it, the result holds every
  span of every page, and a span outside the ranges matched for the current highlights has
  an empty background colour and tooltip title, no \<^verbatim>\<open>data-highlight-id\<close>, summary or
  title attribute, and no click or hover handler.
\<close>

lemma listed_state_cleared:
  assumes "applyHighlights v pages hs = Inr st"
    and "i < length (concat (map snd pages))"
    and "\<forall>h \<in> set hs. \<forall>best.
           matchHighlight (buildSpanData (collectSpans pages)) h = Inr (Some best)
             \<longrightarrow> i < cstart best \<or> cend best < i"
  shows "length st = length (concat (map snd pages))
       \<and> textContent (span (st ! i)) = textContent (concat (map snd pages) ! i)
       \<and> backgroundColor (span (st ! i)) = ''''
       \<and> title (span (st ! i)) = ''''
       \<and> highlightId (span (st ! i)) = None
       \<and> highlightSummary (span (st ! i)) = None
       \<and> highlightTitle (span (st ! i)) = None
       \<and> onclick (span (st ! i)) = None
       \<and> onmouseenter (span (st ! i)) = None
       \<and> onmouseleave (span (st ! i)) = None"
proof -
  have ne: "collectSpans pages \<noteq> []"
    using assms(2) by (metis length_collectSpans list.size(3) not_less0)
  with assms(1) have "processHighlights v (buildSpanData (collectSpans pages)) hs (collectSpans pages) = Inr st"
    by (simp add: applyHighlights_def Let_def)
  from processHighlights_outside[OF this assms(3)]
  have len: "length st = length (collectSpans pages)" and same: "st ! i = collectSpans pages ! i"
    by simp_all
  from same collectSpans_nth[OF assms(2)]
  have "span (st ! i) = clearHighlight (concat (map snd pages) ! i)" by simp
  with len show ?thesis
    by (simp add: length_collectSpans clearHighlight_fields)
qed

lemma listed_state_cleared_example:
  "highlightId (staleSpan ''Data'') = Some ''h0''
   \<and> matchHighlight
         (buildSpanData (collectSpans
            [(1, [staleSpan ''Data'', textSpan ''privacy'', textSpan ''requires'', textSpan ''consent''])]))
         (target ''privacy requires consent'') = Inr (Some \<lparr>cstart = 1, cend = 3\<rparr>)
   \<and> (case applyHighlights idleViewer
              [(1, [staleSpan ''Data'', textSpan ''privacy'', textSpan ''requires'', textSpan ''consent''])]
              [target ''privacy requires consent''] of
          Inl e \<Rightarrow> False
        | Inr st \<Rightarrow> length st = 4 \<and> highlightId (span (st ! 0)) = None
                    \<and> backgroundColor (span (st ! 0)) = '''' \<and> onclick (span (st ! 0)) = None)"
proof -
  let ?pages = "[(1, [staleSpan ''Data'', textSpan ''privacy'', textSpan ''requires'', textSpan ''consent''])]"
  let ?h = "target ''privacy requires consent''"
  have old: "highlightId (staleSpan ''Data'') = Some ''h0''"
    by (simp add: staleSpan_def tagSpan_def Let_def)
  have m: "matchHighlight (buildSpanData (collectSpans ?pages)) ?h = Inr (Some \<lparr>cstart = 1, cend = 3\<rparr>)"
    by code_simp
  obtain st where st: "applyHighlights idleViewer ?pages [?h] = Inr st"
    using applyHighlights_total by blast
  have i: "0 < length (concat (map snd ?pages))" by simp
  have out: "\<forall>h \<in> set [?h]. \<forall>best.
           matchHighlight (buildSpanData (collectSpans ?pages)) h = Inr (Some best)
             \<longrightarrow> 0 < cstart best \<or> cend best < 0"
    using m by simp
  from listed_state_cleared[OF st i out] st old m show ?thesis by simp
qed

text \<open>
  Claim C10. A pass first clears all highlight state from every span of every rendered page
  and then tags the matched ranges, so that after a pass a span outside the ranges matched
  for the current highlights carries nothing of a highlight, and a match made for earlier
  fragments or for an earlier list of highlights never stays. The source falls short of
  this in two places. Tagging sets \<^verbatim>\<open>transition\<close>, \<^verbatim>\<open>transform\<close> and
  \<^verbatim>\<open>boxShadow\<close> (lines 847 to 849), which the clearing of lines 717 to 728, commented as
  clearing the previous highlights, never resets. And the effect of lines 911 to 916,
  commented as re-applying the highlights when they change, runs no pass when the new list
  is empty. Below, a first pass tags the spans 0 and 1 of four for a selected and hovered
  highlight \<open>h0\<close>. A second pass for another highlight, matched to the spans 2 and 3,
  removes the id from span 0 and leaves it the shadow, the scaling and the transition of
  \<open>h0\<close>. Had the list of highlights become empty instead, span 0 would have kept the id,
  the colour and the click handler of \<open>h0\<close>.
\<close>

theorem C10_highlight_state_persists:
  "(case applyHighlights selectingViewer
           [(1, map textSpan [''Data'', ''privacy'', ''requires'', ''consent''])] [earlierTarget] of
      Inl e \<Rightarrow> False
    | Inr st1 \<Rightarrow>
        highlightId (span (st1 ! 0)) = Some ''h0''
        \<and> matchHighlight (buildSpanData (collectSpans [(1, map span st1)]))
              (target ''requires consent'') = Inr (Some \<lparr>cstart = 2, cend = 3\<rparr>)
        \<and> (case applyHighlights selectingViewer [(1, map span st1)] [target ''requires consent''] of
              Inl e \<Rightarrow> False
            | Inr st2 \<Rightarrow>
                highlightId (span (st2 ! 0)) = None
                \<and> boxShadow (span (st2 ! 0)) = ''0 2px 8px rgba(249, 115, 22, 0.30)''
                \<and> transform (span (st2 ! 0)) = ''scale(1.002)''
                \<and> transition (span (st2 ! 0)) = ''all 0.2s ease'')
        \<and> (case highlightEffect selectingViewer [(1, map span st1)] [] of
              Inl e \<Rightarrow> False
            | Inr st3 \<Rightarrow>
                highlightId (span (st3 ! 0)) = Some ''h0''
                \<and> backgroundColor (span (st3 ! 0)) = HIGHLIGHT_COLOR_SELECTED
                \<and> onclick (span (st3 ! 0)) = Some (OnClick ''h0'' ''earlier summary'')))"
  by code_simp

subsection \<open>Normalization\<close>

lemma splitWhiteSpace_chars:
  "set (concat (splitWhiteSpace s)) \<subseteq> {c \<in> set s. \<not> isWhiteSpace c}"
proof (induction s rule: splitWhiteSpace.induct)
  case 1
  show ?case by simp
next
  case (2 c cs)
  show ?case
  proof (cases "isWhiteSpace c")
    case True
    with 2 have "set (concat (splitWhiteSpace (dropWhile isWhiteSpace cs)))
                   \<subseteq> {c \<in> set (dropWhile isWhiteSpace cs). \<not> isWhiteSpace c}"
      by simp
    also have "\<dots> \<subseteq> {c \<in> set cs. \<not> isWhiteSpace c}"
      by (auto dest: set_dropWhileD)
    finally show ?thesis using True by auto
  next
    case False
    with 2 have "set (concat (splitWhiteSpace cs)) \<subseteq> {c \<in> set cs. \<not> isWhiteSpace c}"
      by simp
    with False show ?thesis
      by (cases "splitWhiteSpace cs") auto
  qed
qed

lemma splitWhiteSpace_map:
  assumes "\<And>c. isWhiteSpace (g c) = isWhiteSpace c"
  shows "splitWhiteSpace (map g s) = map (map g) (splitWhiteSpace s)"
proof (induction s rule: splitWhiteSpace.induct)
  case 1
  show ?case by simp
next
  case (2 c cs)
  have dw: "dropWhile isWhiteSpace (map g cs) = map g (dropWhile isWhiteSpace cs)"
    by (simp add: dropWhile_map comp_def assms)
  show ?case
  proof (cases "isWhiteSpace c")
    case True
    with 2 show ?thesis by (simp add: assms dw)
  next
    case False
    with 2 show ?thesis
      by (cases "splitWhiteSpace cs") (simp_all add: assms)
  qed
qed


lemma toLowerCaseUnit_not_upper:
  "\<not> (65 \<le> (of_char (toLowerCaseUnit c) :: nat) \<and> (of_char (toLowerCaseUnit c) :: nat) \<le> 90)"
  by (auto simp: toLowerCaseUnit_def Let_def)

lemma of_char_underscore: "(of_char c :: nat) = 95 \<longleftrightarrow> c = CHR ''_''"
proof -
  have "(of_char (CHR ''_'') :: nat) = 95" by simp
  then have "(of_char c :: nat) = 95 \<longleftrightarrow> (of_char c :: nat) = of_char (CHR ''_'')"
    by simp
  then show ?thesis by (simp only: of_char_eq_iff)
qed

lemma toLowerCaseUnit_underscore:
  "toLowerCaseUnit c = CHR ''_'' \<longleftrightarrow> c = CHR ''_''"
proof
  assume a: "toLowerCaseUnit c = CHR ''_''"
  have "(of_char (toLowerCaseUnit c) :: nat) = 95" by (simp add: a)
  then have "(of_char c :: nat) = 95"
    by (auto simp: toLowerCaseUnit_def Let_def split: if_splits)
  then show "c = CHR ''_''" by (simp only: of_char_underscore)
next
  assume "c = CHR ''_''"
  then show "toLowerCaseUnit c = CHR ''_''" by (simp add: toLowerCaseUnit_def)
qed

text \<open>
  Every word \<^const>\<open>extractWords\<close> returns has 3 characters or more, all of them matched
  by \<^verbatim>\<open>\w\<close> and in lower case: lower-case letters, digits and underscores.
\<close>

lemma extractWords_token_chars:
  assumes "w \<in> set (extractWords txt)" and "c \<in> set w"
  shows "3 \<le> length w \<and> isWordChar c \<and> toLowerCaseUnit c = c"
proof -
  let ?s = "replacePunctuation (toLowerCase txt)"
  from assms(1) have len: "3 \<le> length w" and w: "w \<in> set (splitWhiteSpace ?s)"
    by (auto simp: extractWords_def)
  from w assms(2) have "c \<in> set (concat (splitWhiteSpace ?s))" by auto
  with splitWhiteSpace_chars[of ?s] have c: "c \<in> set ?s" and nw: "\<not> isWhiteSpace c" by auto
  from c obtain d where d: "d \<in> set txt"
    and cd: "c = (if isWordChar (toLowerCaseUnit d) \<or> isWhiteSpace (toLowerCaseUnit d)
                  then toLowerCaseUnit d else CHR '' '')"
    by (auto simp: replacePunctuation_def toLowerCase_def)
  have sp: "isWhiteSpace (CHR '' '')" by (simp add: isWhiteSpace_def)
  from cd nw sp have word: "isWordChar c" and eq: "c = toLowerCaseUnit d"
    by (auto split: if_splits)
  from toLowerCaseUnit_not_upper[of d] eq
  have "\<not> (65 \<le> (of_char c :: nat) \<and> (of_char c :: nat) \<le> 90)" by simp
  moreover from word have "(of_char c :: nat) < 192" by (auto simp: isWordChar_def Let_def)
  ultimately have "toLowerCaseUnit c = c" by (auto simp: toLowerCaseUnit_def Let_def)
  with len word show ?thesis by simp
qed

text \<open>
  On a text without underscores \<^const>\<open>extractWords\<close> is the normalization of the
  specification.
\<close>

lemma extractWords_eq_specNormalize:
  assumes "CHR ''_'' \<notin> set txt"
  shows "extractWords txt = specNormalize txt"
proof -
  define g where "g = (\<lambda>c. if isWhiteSpace c then CHR '' '' else c)"
  let ?l = "toLowerCase txt"
  let ?s = "replacePunctuation ?l"
  have sp: "isWhiteSpace (CHR '' '')" by (simp add: isWhiteSpace_def)
  have gws: "isWhiteSpace (g c) = isWhiteSpace c" for c
    by (simp add: g_def sp)
  have nous: "CHR ''_'' \<notin> set ?l"
  proof
    assume "CHR ''_'' \<in> set ?l"
    then obtain d where "d \<in> set txt" and "toLowerCaseUnit d = CHR ''_''"
      by (auto simp: toLowerCase_def)
    then show False using assms by (simp add: toLowerCaseUnit_underscore)
  qed
  have disj: "\<not> (isAlphaNumeric c \<and> isWhiteSpace c)" for c
    by (auto simp: isAlphaNumeric_def isWhiteSpace_def Let_def)
  have word: "isWordChar c \<longleftrightarrow> isAlphaNumeric c \<or> c = CHR ''_''" for c
  proof -
    show ?thesis
      by (auto simp: isWordChar_def isAlphaNumeric_def Let_def of_char_underscore[symmetric])
  qed
  have "map (\<lambda>c. if isAlphaNumeric c then c else CHR '' '') ?l = map g ?s"
    unfolding replacePunctuation_def map_map
  proof (rule map_cong[OF refl])
    fix c assume "c \<in> set ?l"
    with nous have "c \<noteq> CHR ''_''" by auto
    then show "(if isAlphaNumeric c then c else CHR '' '')
             = (g \<circ> (\<lambda>c. if isWordChar c \<or> isWhiteSpace c then c else CHR '' '')) c"
      using disj[of c] by (auto simp: g_def word sp)
  qed
  then have "splitWhiteSpace (map (\<lambda>c. if isAlphaNumeric c then c else CHR '' '') ?l)
               = map (map g) (splitWhiteSpace ?s)"
    by (simp add: splitWhiteSpace_map[of g, OF gws])
  also have "\<dots> = splitWhiteSpace ?s"
  proof (rule map_idI)
    fix w assume "w \<in> set (splitWhiteSpace ?s)"
    then have "set w \<subseteq> set (concat (splitWhiteSpace ?s))" by auto
    with splitWhiteSpace_chars[of ?s] have "\<forall>c \<in> set w. \<not> isWhiteSpace c" by blast
    then show "map g w = w" by (simp add: g_def map_idI)
  qed
  finally have split: "splitWhiteSpace (map (\<lambda>c. if isAlphaNumeric c then c else CHR '' '') ?l)
                        = splitWhiteSpace ?s" .
  have keep: "(\<lambda>w :: string. \<not> length w < 3) = (\<lambda>w. length w > 2)"
    by (rule ext) arith
  show ?thesis
    unfolding extractWords_def specNormalize_def split keep ..
qed

text \<open>
  Claim C2. The normalization \<^const>\<open>extractWords\<close> equals the four steps of the
  specification (lower-case, replace every non-alphanumeric character with white space,
  split on runs of white space, discard the tokens shorter than 3 characters), so that every
  word it returns consists of lower-case alphanumeric characters only. The source replaces
  with \<^verbatim>\<open>/[^\w\s]/g\<close>, commented as replacing punctuation, and \<^verbatim>\<open>\w\<close> matches the
  underscore: the text \<open>user_id\<close> stays one word with its underscore, where the four steps
  give \<open>user\<close>.
\<close>

theorem C2_underscore_kept:
  "extractWords ''user_id'' = [''user_id''] \<and> specNormalize ''user_id'' = [''user'']"
  by code_simp

end
